theory Spec2Isabelle
  imports Complex_Main
begin

section \<open>Python built-ins used by \<^verbatim>\<open>tlv.py\<close>\<close>

text \<open>
  A Python \<^verbatim>\<open>str\<close> is modelled as a \<^typ>\<open>string\<close> in which every \<^typ>\<open>char\<close>
  stands for one character with code point below 256, so \<^const>\<open>length\<close> is Python's
  \<^verbatim>\<open>len\<close>. Python's \<^verbatim>\<open>int\<close> is \<^typ>\<open>int\<close>. The interpreter's resource limits
  (recursion depth, the digit limit of int/str conversion) are not modelled.
\<close>

datatype error = IndexError | KeyError | ValueError | TypeError

text \<open>\<^verbatim>\<open>str(n)\<close> for an integer: decimal digits, a minus sign for negative numbers.\<close>

definition digit_char :: "nat \<Rightarrow> char" where
  "digit_char d = ''0123456789'' ! d"

fun str_nat :: "nat \<Rightarrow> string" where
  "str_nat n = (if n < 10 then [digit_char n] else str_nat (n div 10) @ [digit_char (n mod 10)])"

declare str_nat.simps [simp del]

definition str_int :: "int \<Rightarrow> string" where
  "str_int i = (if i < 0 then CHR ''-'' # str_nat (nat (- i)) else str_nat (nat i))"

text \<open>
  \<^verbatim>\<open>int(s)\<close> for a string, base ten: white space is stripped at both ends, one sign may
  follow, then come decimal digits, where single underscores may stand between two digits.
  \<open>None\<close> is Python's ValueError. Among the characters below 256 the white space of
  \<^verbatim>\<open>int\<close> is TAB, LF, VT, FF, CR, the blank, U+0085 and U+00A0, and the decimal digits
  are the ASCII ones.
\<close>

definition is_space :: "char \<Rightarrow> bool" where
  "is_space c = (c \<in> set [CHR 0x09, CHR 0x0A, CHR 0x0B, CHR 0x0C, CHR 0x0D, CHR 0x20,
                           CHR 0x85, CHR 0xA0])"

definition strip :: "string \<Rightarrow> string" where
  "strip s = rev (dropWhile is_space (rev (dropWhile is_space s)))"

definition digit_val :: "char \<Rightarrow> nat option" where
  "digit_val c = map_of [(CHR ''0'', 0), (CHR ''1'', 1), (CHR ''2'', 2), (CHR ''3'', 3),
     (CHR ''4'', 4), (CHR ''5'', 5), (CHR ''6'', 6), (CHR ''7'', 7), (CHR ''8'', 8),
     (CHR ''9'', 9)] c"

fun digits_value :: "nat \<Rightarrow> string \<Rightarrow> nat option" where
  "digits_value acc [] = Some acc"
| "digits_value acc (c # cs) =
     (if c = CHR ''_'' then
        (case cs of [] \<Rightarrow> None
         | d # _ \<Rightarrow> if d = CHR ''_'' then None else digits_value acc cs)
      else (case digit_val c of None \<Rightarrow> None
            | Some d \<Rightarrow> digits_value (10 * acc + d) cs))"

definition unsigned_value :: "string \<Rightarrow> nat option" where
  "unsigned_value s =
     (case s of [] \<Rightarrow> None
      | c # _ \<Rightarrow> if c = CHR ''_'' then None else digits_value 0 s)"

definition int_of_str :: "string \<Rightarrow> int option" where
  "int_of_str s =
     (case strip s of
        [] \<Rightarrow> None
      | c # cs \<Rightarrow>
          if c = CHR ''-'' then map_option (\<lambda>n. - int n) (unsigned_value cs)
          else if c = CHR ''+'' then map_option int (unsigned_value cs)
          else map_option int (unsigned_value (c # cs)))"

text \<open>
  The slice \<^verbatim>\<open>s[lo:hi]\<close>: a negative bound counts from the end, and both bounds are
  clamped to the string, so a slice never raises.
\<close>

definition slice_bound :: "nat \<Rightarrow> int \<Rightarrow> nat" where
  "slice_bound n i = (if i < 0 then nat (max 0 (i + int n)) else min (nat i) n)"

definition slice :: "'a list \<Rightarrow> int \<Rightarrow> int \<Rightarrow> 'a list" where
  "slice s lo hi =
     (let a = slice_bound (length s) lo; b = slice_bound (length s) hi
      in take (b - a) (drop a s))"

section \<open>Handlers: framing\<close>

datatype handler =
    NoneHandler | BooleanHandler | StringHandler | DatetimeHandler | IntegerHandler
  | FloatHandler | ListHandler | TupleHandler | SetHandler | DictionaryHandler

fun tag :: "handler \<Rightarrow> string" where
  "tag NoneHandler = ''N''"
| "tag BooleanHandler = ''B''"
| "tag StringHandler = ''S''"
| "tag DatetimeHandler = ''D''"
| "tag IntegerHandler = ''I''"
| "tag FloatHandler = ''F''"
| "tag ListHandler = ''L''"
| "tag TupleHandler = ''T''"
| "tag SetHandler = ''s''"
| "tag DictionaryHandler = ''d''"

definition delimiter :: string where
  "delimiter = '':''"

text \<open>\<^verbatim>\<open>Handler._pack\<close>: the f-string \<^verbatim>\<open>{tag}{length}{delimiter}{value}\<close>.\<close>

definition pack :: "handler \<Rightarrow> int \<Rightarrow> string \<Rightarrow> string" where
  "pack h len val = tag h @ str_int len @ delimiter @ val"

text \<open>\<^verbatim>\<open>Handler.get_tag\<close>: \<^verbatim>\<open>raw[0]\<close>, which raises IndexError on the empty string.\<close>

definition get_tag :: "string \<Rightarrow> error + string" where
  "get_tag raw = (case raw of [] \<Rightarrow> Inl IndexError | c # _ \<Rightarrow> Inr [c])"

text \<open>
  \<^verbatim>\<open>Handler._unpack\<close>. \<^verbatim>\<open>split(delimiter, maxsplit=1)[0]\<close> is the text before the first
  delimiter, or all of it when there is none. The result is (value, length, value_offset).
\<close>

definition split_first :: "string \<Rightarrow> string" where
  "split_first s = takeWhile (\<lambda>c. [c] \<noteq> delimiter) s"

definition unpack :: "string \<Rightarrow> error + (string \<times> int \<times> nat)" where
  "unpack raw =
     (case get_tag raw of
        Inl e \<Rightarrow> Inl e
      | Inr tg \<Rightarrow>
          let length_str = split_first (drop (length tg) raw);
              value_offset = length length_str + length tg + length delimiter
          in (case int_of_str length_str of
                None \<Rightarrow> Inl ValueError
              | Some len \<Rightarrow>
                  Inr (slice raw (int value_offset) (int value_offset + len), len, value_offset)))"

section \<open>Values\<close>

text \<open>
  The values the registry knows, one constructor per registered Python type. A finite
  float is identified with the rational number it denotes (so \<open>0.0\<close> and \<open>-0.0\<close> are one
  value). A dictionary is the list of its items in iteration order. A set is the list
  of its elements: for a set that is encoded the list is the order of iteration, which
  decides the text that is written; for a set that \<^verbatim>\<open>set(items)\<close> builds the list is the
  order of insertion, where Python iterates in the order of the hashes. Python's \<^verbatim>\<open>==\<close>
  on sets does not look at the order, and statements about decoded sets are to be read
  up to it.
\<close>

datatype pyfloat = Finite rat | PosInf | NegInf | NaN

text \<open>
  A \<^verbatim>\<open>datetime\<close>: its seven fields, \<^verbatim>\<open>fold\<close> and \<^verbatim>\<open>tzinfo\<close>. The tzinfo of an aware
  datetime is given by what \<^verbatim>\<open>isoformat\<close> and \<^verbatim>\<open>==\<close> ask of it: a \<^verbatim>\<open>datetime.timezone\<close>
  by its fixed offset; any other tzinfo object by a number that stands for the object
  and by the two offsets that its \<^verbatim>\<open>utcoffset\<close> returns at this wall time for \<^verbatim>\<open>fold=0\<close>
  and for \<^verbatim>\<open>fold=1\<close>. Offsets are in microseconds. A tzinfo whose \<^verbatim>\<open>utcoffset\<close> returns
  None is left out.
\<close>

datatype tzinfo = Timezone int | Zone nat int int

record pydatetime =
  year :: nat
  month :: nat
  day :: nat
  hour :: nat
  minute :: nat
  second :: nat
  microsecond :: nat
  fold_flag :: bool
  tzinfo :: "tzinfo option"

datatype pyval =
    VNone
  | VBool bool
  | VStr string
  | VInt int
  | VFloat pyfloat
  | VDatetime pydatetime
  | VList "pyval list"
  | VTuple "pyval list"
  | VSet "pyval list"
  | VDict "(pyval \<times> pyval) list"

text \<open>
  The conversions between floats and text and the parser of datetimes are the
  interpreter's, not this program's: \<^verbatim>\<open>str(x)\<close> and \<^verbatim>\<open>float(s)\<close> for a float,
  \<^verbatim>\<open>datetime.fromisoformat(s)\<close> for a datetime. The model takes them as parameters;
  \<open>None\<close> is ValueError.
\<close>

record builtins =
  float_str :: "pyfloat \<Rightarrow> string"
  float_of_str :: "string \<Rightarrow> pyfloat option"
  fromisoformat :: "string \<Rightarrow> pydatetime option"

text \<open>
  \<^verbatim>\<open>d.utcoffset()\<close>, and the offset of \<open>d\<close> with its fold flipped
  (\<^verbatim>\<open>get_flip_fold_offset\<close> in the interpreter).
\<close>

fun offset_at :: "bool \<Rightarrow> tzinfo option \<Rightarrow> int option" where
  "offset_at f None = None"
| "offset_at f (Some (Timezone off)) = Some off"
| "offset_at f (Some (Zone n off0 off1)) = Some (if f then off1 else off0)"

definition utcoffset :: "pydatetime \<Rightarrow> int option" where
  "utcoffset d = offset_at (fold_flag d) (tzinfo d)"

definition flip_fold_offset :: "pydatetime \<Rightarrow> int option" where
  "flip_fold_offset d = offset_at (\<not> fold_flag d) (tzinfo d)"

text \<open>
  \<^verbatim>\<open>d.isoformat()\<close>: \<^verbatim>\<open>YYYY-MM-DDTHH:MM:SS\<close>, the microseconds when they are not zero,
  and for an aware datetime the offset as \<^verbatim>\<open>+HH:MM\<close>, with seconds and microseconds when
  they are not zero. \<open>zfill w n\<close> is the format \<^verbatim>\<open>%0wd\<close>.
\<close>

definition zfill :: "nat \<Rightarrow> nat \<Rightarrow> string" where
  "zfill w n = replicate (w - length (str_nat n)) (CHR ''0'') @ str_nat n"

definition format_offset :: "int \<Rightarrow> string" where
  "format_offset off =
     (let a = \<bar>off\<bar>;
          hh = a div 3600000000;
          mm = a mod 3600000000 div 60000000;
          ss = a mod 60000000 div 1000000;
          us = a mod 1000000
      in (if off < 0 then ''-'' else ''+'') @ zfill 2 (nat hh) @ '':'' @ zfill 2 (nat mm)
         @ (if ss \<noteq> 0 \<or> us \<noteq> 0
            then '':'' @ zfill 2 (nat ss)
                 @ (if us \<noteq> 0 then ''.'' @ zfill 6 (nat us) else [])
            else []))"

definition isoformat :: "pydatetime \<Rightarrow> string" where
  "isoformat d =
     zfill 4 (year d) @ ''-'' @ zfill 2 (month d) @ ''-'' @ zfill 2 (day d) @ ''T''
     @ zfill 2 (hour d) @ '':'' @ zfill 2 (minute d) @ '':'' @ zfill 2 (second d)
     @ (if microsecond d \<noteq> 0 then ''.'' @ zfill 6 (microsecond d) else [])
     @ (case utcoffset d of None \<Rightarrow> [] | Some off \<Rightarrow> format_offset off)"

text \<open>
  The microseconds from the start of year 1 to the wall time of \<open>d\<close>, less an offset:
  two aware datetimes denote the same instant when these agree
  (\<^verbatim>\<open>toordinal\<close> is the day number of the proleptic Gregorian calendar).
\<close>

definition is_leap :: "nat \<Rightarrow> bool" where
  "is_leap y = (y mod 4 = 0 \<and> (y mod 100 \<noteq> 0 \<or> y mod 400 = 0))"

definition days_before_year :: "nat \<Rightarrow> nat" where
  "days_before_year y = (y - 1) * 365 + (y - 1) div 4 - (y - 1) div 100 + (y - 1) div 400"

definition days_before_month :: "nat \<Rightarrow> nat \<Rightarrow> nat" where
  "days_before_month y m =
     sum_list (take (m - 1)
       [31, if is_leap y then 29 else 28, 31, 30, 31, 30, 31, 31, 30, 31, 30, 31])"

definition toordinal :: "pydatetime \<Rightarrow> nat" where
  "toordinal d = days_before_year (year d) + days_before_month (year d) (month d) + day d"

definition utc_microseconds :: "pydatetime \<Rightarrow> int \<Rightarrow> int" where
  "utc_microseconds d off =
     (((int (toordinal d) * 24 + int (hour d)) * 60 + int (minute d)) * 60 + int (second d))
       * 1000000 + int (microsecond d) - off"

text \<open>
  \<^verbatim>\<open>d1 == d2\<close> on datetimes (\<^verbatim>\<open>datetime_richcompare\<close>). With one and the same tzinfo
  object, or with both naive, the fields are compared and \<^verbatim>\<open>fold\<close> is not. Otherwise a
  naive and an aware datetime are unequal, and two aware ones are equal when they denote
  the same instant and the offset of neither depends on its fold. For two
  \<^verbatim>\<open>datetime.timezone\<close> objects it makes no difference whether they are one object, so
  they are taken to be two.
\<close>

definition fields :: "pydatetime \<Rightarrow> nat \<times> nat \<times> nat \<times> nat \<times> nat \<times> nat \<times> nat" where
  "fields d = (year d, month d, day d, hour d, minute d, second d, microsecond d)"

fun same_tzinfo :: "tzinfo option \<Rightarrow> tzinfo option \<Rightarrow> bool" where
  "same_tzinfo None None = True"
| "same_tzinfo (Some (Zone m a b)) (Some (Zone n c d)) = (m = n)"
| "same_tzinfo _ _ = False"

definition datetime_eq :: "pydatetime \<Rightarrow> pydatetime \<Rightarrow> bool" where
  "datetime_eq d1 d2 =
     (if same_tzinfo (tzinfo d1) (tzinfo d2) then fields d1 = fields d2
      else (case (utcoffset d1, utcoffset d2) of
              (Some off1, Some off2) \<Rightarrow>
                (if off1 = off2 then fields d1 = fields d2
                 else utc_microseconds d1 off1 = utc_microseconds d2 off2)
                \<and> flip_fold_offset d1 = Some off1 \<and> flip_fold_offset d2 = Some off2
            | _ \<Rightarrow> False))"

text \<open>
  Python's \<^verbatim>\<open>==\<close> on these values. Booleans, integers and floats compare by numeric
  value, and NaN equals nothing; lists and tuples compare element by element; sets and
  dictionaries compare without regard to order.
\<close>

fun as_float :: "pyval \<Rightarrow> pyfloat option" where
  "as_float (VBool b) = Some (Finite (if b then 1 else 0))"
| "as_float (VInt i) = Some (Finite (of_int i))"
| "as_float (VFloat f) = Some f"
| "as_float _ = None"

definition float_eq :: "pyfloat \<Rightarrow> pyfloat option \<Rightarrow> bool" where
  "float_eq a b = (a \<noteq> NaN \<and> b = Some a)"

fun py_eq :: "pyval \<Rightarrow> pyval \<Rightarrow> bool" where
  "py_eq VNone y = (y = VNone)"
| "py_eq (VBool b) y = float_eq (Finite (if b then 1 else 0)) (as_float y)"
| "py_eq (VStr s) y = (y = VStr s)"
| "py_eq (VInt i) y = float_eq (Finite (of_int i)) (as_float y)"
| "py_eq (VFloat f) y = float_eq f (as_float y)"
| "py_eq (VDatetime d) y = (case y of VDatetime e \<Rightarrow> datetime_eq d e | _ \<Rightarrow> False)"
| "py_eq (VList xs) y = (case y of VList ys \<Rightarrow> list_all2 py_eq xs ys | _ \<Rightarrow> False)"
| "py_eq (VTuple xs) y = (case y of VTuple ys \<Rightarrow> list_all2 py_eq xs ys | _ \<Rightarrow> False)"
| "py_eq (VSet xs) y =
     (case y of
        VSet ys \<Rightarrow> length xs = length ys \<and> list_all (\<lambda>x. list_ex (py_eq x) ys) xs
      | _ \<Rightarrow> False)"
| "py_eq (VDict kvs) y =
     (case y of
        VDict kvs' \<Rightarrow>
          length kvs = length kvs' \<and>
          list_all (\<lambda>(k, v). list_ex (\<lambda>(k', v'). py_eq k k' \<and> py_eq v v') kvs') kvs
      | _ \<Rightarrow> False)"

text \<open>\<^verbatim>\<open>hash(x)\<close> succeeds: lists, sets and dictionaries are unhashable, a tuple is
  hashable when its elements are.\<close>

fun hashable :: "pyval \<Rightarrow> bool" where
  "hashable (VList xs) = False"
| "hashable (VSet xs) = False"
| "hashable (VDict kvs) = False"
| "hashable (VTuple xs) = list_all hashable xs"
| "hashable _ = True"

section \<open>The registry\<close>

text \<open>\<^verbatim>\<open>Factory._tag_2_handler\<close> after the ten registrations, in their order.\<close>

definition tag_2_handler :: "string \<rightharpoonup> handler" where
  "tag_2_handler = map_of (map (\<lambda>h. (tag h, h))
     [NoneHandler, BooleanHandler, StringHandler, DatetimeHandler, IntegerHandler,
      FloatHandler, ListHandler, TupleHandler, SetHandler, DictionaryHandler])"

text \<open>\<^verbatim>\<open>Factory.get_by_raw_data\<close>: KeyError for a tag that is not registered.\<close>

definition get_by_raw_data :: "string \<Rightarrow> error + handler" where
  "get_by_raw_data raw =
     (case get_tag raw of
        Inl e \<Rightarrow> Inl e
      | Inr tg \<Rightarrow> (case tag_2_handler tg of None \<Rightarrow> Inl KeyError | Some h \<Rightarrow> Inr h))"

text \<open>\<^verbatim>\<open>Factory.get_by_data\<close>: the handler registered for \<^verbatim>\<open>type(data)\<close>.\<close>

fun get_by_data :: "pyval \<Rightarrow> handler" where
  "get_by_data VNone = NoneHandler"
| "get_by_data (VBool b) = BooleanHandler"
| "get_by_data (VStr s) = StringHandler"
| "get_by_data (VInt i) = IntegerHandler"
| "get_by_data (VFloat f) = FloatHandler"
| "get_by_data (VDatetime d) = DatetimeHandler"
| "get_by_data (VList xs) = ListHandler"
| "get_by_data (VTuple xs) = TupleHandler"
| "get_by_data (VSet xs) = SetHandler"
| "get_by_data (VDict kvs) = DictionaryHandler"

section \<open>Encoding\<close>

definition NoneHandler_encode :: "string \<times> int" where
  "NoneHandler_encode =
     (let val = []; len = int (length val) in (pack NoneHandler len val, len))"

definition BooleanHandler_encode :: "bool \<Rightarrow> string \<times> int" where
  "BooleanHandler_encode data =
     (let item_raw = str_int (if data then 1 else 0); len = int (length item_raw)
      in (pack BooleanHandler len item_raw, len))"

definition StringHandler_encode :: "string \<Rightarrow> string \<times> int" where
  "StringHandler_encode data =
     (let len = int (length data) in (pack StringHandler len data, len))"

definition DatetimeHandler_encode :: "pydatetime \<Rightarrow> string \<times> int" where
  "DatetimeHandler_encode data =
     (let val = isoformat data; len = int (length val)
      in (pack DatetimeHandler len val, len))"

text \<open>\<^verbatim>\<open>GenericNumberHandler.encode\<close>, given \<^verbatim>\<open>str(data)\<close>.\<close>

definition GenericNumberHandler_encode :: "handler \<Rightarrow> string \<Rightarrow> string \<times> int" where
  "GenericNumberHandler_encode cls item_raw =
     (let len = int (length item_raw) in (pack cls len item_raw, len))"

text \<open>\<^verbatim>\<open>GenericCollectionHandler.encode\<close>, given the fragments of the elements in
  iteration order.\<close>

definition GenericCollectionHandler_encode :: "handler \<Rightarrow> string list \<Rightarrow> string \<times> int" where
  "GenericCollectionHandler_encode cls fragments =
     (let data_str = concat fragments; len = int (length data_str)
      in (pack cls len data_str, len))"

text \<open>\<^verbatim>\<open>DictionaryHandler.encode\<close>, given the fragments of the pairs.\<close>

definition DictionaryHandler_encode :: "string list \<Rightarrow> string \<times> int" where
  "DictionaryHandler_encode pair_fragments =
     (let data_str = concat pair_fragments; len = int (length data_str)
      in (pack DictionaryHandler len data_str, len))"

text \<open>\<^verbatim>\<open>Factory.get_by_data(data).encode(data)\<close>. A dictionary hands each item to the
  encoder of \<^verbatim>\<open>TupleHandler\<close> as the tuple \<^verbatim>\<open>(key, value)\<close>.\<close>

fun encode :: "builtins \<Rightarrow> pyval \<Rightarrow> string \<times> int" where
  "encode B VNone = NoneHandler_encode"
| "encode B (VBool b) = BooleanHandler_encode b"
| "encode B (VStr s) = StringHandler_encode s"
| "encode B (VInt i) = GenericNumberHandler_encode IntegerHandler (str_int i)"
| "encode B (VFloat f) = GenericNumberHandler_encode FloatHandler (float_str B f)"
| "encode B (VDatetime d) = DatetimeHandler_encode d"
| "encode B (VList xs) =
     GenericCollectionHandler_encode ListHandler (map (\<lambda>i. fst (encode B i)) xs)"
| "encode B (VTuple xs) =
     GenericCollectionHandler_encode TupleHandler (map (\<lambda>i. fst (encode B i)) xs)"
| "encode B (VSet xs) =
     GenericCollectionHandler_encode SetHandler (map (\<lambda>i. fst (encode B i)) xs)"
| "encode B (VDict kvs) =
     DictionaryHandler_encode
       (map (\<lambda>(key, val).
               fst (GenericCollectionHandler_encode TupleHandler
                      [fst (encode B key), fst (encode B val)])) kvs)"

definition dumps :: "builtins \<Rightarrow> pyval \<Rightarrow> string" where
  "dumps B data = fst (encode B data)"

section \<open>Decoding\<close>

text \<open>
  The factories of the containers. \<^verbatim>\<open>set(items)\<close> adds the items one by one: an
  unhashable item raises TypeError, an item equal to an earlier one is dropped.
  \<^verbatim>\<open>dict(pairs)\<close> takes the pairs one by one: a tuple that has not two elements raises
  ValueError, an unhashable key TypeError, and a key equal to an earlier one keeps the
  earlier key and its place and takes the new value.
\<close>

definition set_add :: "pyval list \<Rightarrow> pyval \<Rightarrow> error + pyval list" where
  "set_add acc x =
     (if \<not> hashable x then Inl TypeError
      else if list_ex (\<lambda>y. py_eq y x) acc then Inr acc
      else Inr (acc @ [x]))"

fun set_of_items :: "pyval list \<Rightarrow> pyval list \<Rightarrow> error + pyval list" where
  "set_of_items acc [] = Inr acc"
| "set_of_items acc (x # xs) =
     (case set_add acc x of Inl e \<Rightarrow> Inl e | Inr acc' \<Rightarrow> set_of_items acc' xs)"

definition set_factory :: "pyval list \<Rightarrow> error + pyval" where
  "set_factory items = (case set_of_items [] items of Inl e \<Rightarrow> Inl e | Inr s \<Rightarrow> Inr (VSet s))"

fun dict_update ::
  "(pyval \<times> pyval) list \<Rightarrow> pyval \<Rightarrow> pyval \<Rightarrow> (pyval \<times> pyval) list" where
  "dict_update [] k v = [(k, v)]"
| "dict_update ((k', v') # kvs) k v =
     (if py_eq k' k then (k', v) # kvs else (k', v') # dict_update kvs k v)"

text \<open>The pairs come from \<^verbatim>\<open>TupleHandler.decode\<close>, so each of them is a tuple.\<close>

fun pair_of :: "pyval \<Rightarrow> error + (pyval \<times> pyval)" where
  "pair_of (VTuple [k, v]) = Inr (k, v)"
| "pair_of (VTuple xs) = Inl ValueError"
| "pair_of _ = Inl TypeError"

fun dict_of_pairs ::
  "(pyval \<times> pyval) list \<Rightarrow> pyval list \<Rightarrow> error + (pyval \<times> pyval) list" where
  "dict_of_pairs acc [] = Inr acc"
| "dict_of_pairs acc (p # ps) =
     (case pair_of p of
        Inl e \<Rightarrow> Inl e
      | Inr (k, v) \<Rightarrow>
          if hashable k then dict_of_pairs (dict_update acc k v) ps else Inl TypeError)"

definition dict_factory :: "pyval list \<Rightarrow> error + pyval" where
  "dict_factory pairs =
     (case dict_of_pairs [] pairs of Inl e \<Rightarrow> Inl e | Inr kvs \<Rightarrow> Inr (VDict kvs))"

text \<open>
  The \<^verbatim>\<open>decode\<close> class methods, by handler, and the two loops: the one of
  \<^verbatim>\<open>GenericCollectionHandler.decode\<close> (shared by the list, tuple and set handlers, which
  differ in \<^verbatim>\<open>cls.factory\<close>) and the one of \<^verbatim>\<open>DictionaryHandler.decode\<close>, whose
  \<^verbatim>\<open>pair_handler\<close> is \<^verbatim>\<open>TupleHandler\<close>. A loop carries the payload, the offset and
  the items read so far. No \<^verbatim>\<open>decode\<close> looks at the tag it is given.
\<close>

lemma unpack_shorter:
  assumes "unpack raw = Inr (val, len, off)"
  shows "length val < length raw" and "2 \<le> off"
  using assms
  by (auto simp: unpack_def get_tag_def slice_def slice_bound_def delimiter_def Let_def
      split: list.splits option.splits if_splits)

function decode :: "builtins \<Rightarrow> handler \<Rightarrow> string \<Rightarrow> error + (pyval \<times> nat)"
  and decode_items :: "builtins \<Rightarrow> string \<Rightarrow> nat \<Rightarrow> pyval list \<Rightarrow> error + pyval list"
  and decode_pairs :: "builtins \<Rightarrow> string \<Rightarrow> nat \<Rightarrow> pyval list \<Rightarrow> error + pyval list"
where
  "decode B NoneHandler data =
     (case unpack data of
        Inl e \<Rightarrow> Inl e
      | Inr (val, len, offset) \<Rightarrow> Inr (VNone, length val + offset))"
| "decode B BooleanHandler raw =
     (case unpack raw of
        Inl e \<Rightarrow> Inl e
      | Inr (val, len, offset) \<Rightarrow>
          (case int_of_str val of
             None \<Rightarrow> Inl ValueError
           | Some n \<Rightarrow> Inr (VBool (n \<noteq> 0), length val + offset)))"
| "decode B StringHandler raw =
     (case unpack raw of
        Inl e \<Rightarrow> Inl e
      | Inr (val, len, offset) \<Rightarrow> Inr (VStr val, length val + offset))"
| "decode B DatetimeHandler raw =
     (case unpack raw of
        Inl e \<Rightarrow> Inl e
      | Inr (val, len, offset) \<Rightarrow>
          (case fromisoformat B val of
             None \<Rightarrow> Inl ValueError
           | Some d \<Rightarrow> Inr (VDatetime d, length val + offset)))"
| "decode B IntegerHandler raw =
     (case unpack raw of
        Inl e \<Rightarrow> Inl e
      | Inr (val, len, offset) \<Rightarrow>
          (case int_of_str val of
             None \<Rightarrow> Inl ValueError
           | Some n \<Rightarrow> Inr (VInt n, length val + offset)))"
| "decode B FloatHandler raw =
     (case unpack raw of
        Inl e \<Rightarrow> Inl e
      | Inr (val, len, offset) \<Rightarrow>
          (case float_of_str B val of
             None \<Rightarrow> Inl ValueError
           | Some f \<Rightarrow> Inr (VFloat f, length val + offset)))"
| "decode B ListHandler raw =
     (case unpack raw of
        Inl e \<Rightarrow> Inl e
      | Inr (val, len, value_offset) \<Rightarrow>
          (case decode_items B val 0 [] of
             Inl e \<Rightarrow> Inl e
           | Inr items \<Rightarrow> Inr (VList items, length val + value_offset)))"
| "decode B TupleHandler raw =
     (case unpack raw of
        Inl e \<Rightarrow> Inl e
      | Inr (val, len, value_offset) \<Rightarrow>
          (case decode_items B val 0 [] of
             Inl e \<Rightarrow> Inl e
           | Inr items \<Rightarrow> Inr (VTuple items, length val + value_offset)))"
| "decode B SetHandler raw =
     (case unpack raw of
        Inl e \<Rightarrow> Inl e
      | Inr (val, len, value_offset) \<Rightarrow>
          (case decode_items B val 0 [] of
             Inl e \<Rightarrow> Inl e
           | Inr items \<Rightarrow>
               (case set_factory items of
                  Inl e \<Rightarrow> Inl e
                | Inr s \<Rightarrow> Inr (s, length val + value_offset))))"
| "decode B DictionaryHandler raw =
     (case unpack raw of
        Inl e \<Rightarrow> Inl e
      | Inr (val, len, value_offset) \<Rightarrow>
          (case decode_pairs B val 0 [] of
             Inl e \<Rightarrow> Inl e
           | Inr pairs \<Rightarrow>
               (case dict_factory pairs of
                  Inl e \<Rightarrow> Inl e
                | Inr d \<Rightarrow> Inr (d, length val + value_offset))))"
| "decode_items B val offset items =
     (if offset < length val then
        (let item_data = drop offset val in
         case get_by_raw_data item_data of
           Inl e \<Rightarrow> Inl e
         | Inr item_handler \<Rightarrow>
             (case decode B item_handler item_data of
                Inl e \<Rightarrow> Inl e
              | Inr (item, item_len) \<Rightarrow> decode_items B val (offset + item_len) (items @ [item])))
      else Inr items)"
| "decode_pairs B val offset pairs =
     (if offset < length val then
        (let pair_raw = drop offset val in
         case decode B TupleHandler pair_raw of
           Inl e \<Rightarrow> Inl e
         | Inr (pair, pair_len) \<Rightarrow> decode_pairs B val (offset + pair_len) (pairs @ [pair]))
      else Inr pairs)"
  by pat_completeness auto

text \<open>
  Every call terminates: a payload is shorter than the fragment it is cut from, and
  every fragment that decodes reports at least two characters consumed, so the offset
  of a loop grows.
\<close>

termination
proof -
  have consumed: "2 \<le> n"
    if "decode_decode_items_decode_pairs_dom (Inl (B, h, raw))"
      and "decode B h raw = Inr (v, n)"
    for B h raw v n
    using that
    by (cases h)
      (auto simp: decode.psimps split: sum.splits option.splits dest: unpack_shorter(2))
  show ?thesis
    by (relation "measure (\<lambda>x. case x of
            Inl (B, h, raw) \<Rightarrow> 2 * length raw
          | Inr (Inl (B, val, offset, items)) \<Rightarrow> 2 * (length val - offset) + 1
          | Inr (Inr (B, val, offset, pairs)) \<Rightarrow> 2 * (length val - offset) + 1)")
      (auto dest: unpack_shorter(1) consumed)
qed

declare decode_items.simps [simp del] decode_pairs.simps [simp del]

definition loads :: "builtins \<Rightarrow> string \<Rightarrow> error + pyval" where
  "loads B data =
     (case get_by_raw_data data of
        Inl e \<Rightarrow> Inl e
      | Inr handler \<Rightarrow>
          (case decode B handler data of Inl e \<Rightarrow> Inl e | Inr (v, consumed) \<Rightarrow> Inr v))"

section \<open>A sample of the interpreter's conversions\<close>

text \<open>
  Closed examples need the conversions at a few arguments. \<open>sample\<close> gives those of
  floats for \<open>nan\<close>, \<open>inf\<close>, \<open>-inf\<close> and the integral floats below \<open>10^16\<close> (which Python
  writes without exponent, as \<open>2.0\<close>), and it parses two datetimes:
  \<^verbatim>\<open>1970-01-01T00:00:00\<close>, which is naive, and \<^verbatim>\<open>2020-10-25T02:30:00+02:00\<close>, which
  \<^verbatim>\<open>fromisoformat\<close> returns with a \<^verbatim>\<open>datetime.timezone\<close> of two hours. It rejects every
  other text, and what it writes for any other float is not what Python writes.
\<close>

definition sample_float_str :: "pyfloat \<Rightarrow> string" where
  "sample_float_str f =
     (case f of
        Finite r \<Rightarrow> str_int \<lfloor>r\<rfloor> @ ''.0''
      | PosInf \<Rightarrow> ''inf''
      | NegInf \<Rightarrow> ''-inf''
      | NaN \<Rightarrow> ''nan'')"

definition sample_float_of_str :: "string \<Rightarrow> pyfloat option" where
  "sample_float_of_str s =
     (if s = ''nan'' then Some NaN
      else if s = ''inf'' then Some PosInf
      else if s = ''-inf'' then Some NegInf
      else if 2 \<le> length s \<and> drop (length s - 2) s = ''.0''
              \<and> list_all (\<lambda>c. c \<in> set ''-0123456789'') (take (length s - 2) s)
           then map_option (\<lambda>i. Finite (of_int i)) (int_of_str (take (length s - 2) s))
      else None)"

definition epoch :: pydatetime where
  "epoch = \<lparr> year = 1970, month = 1, day = 1, hour = 0, minute = 0, second = 0,
             microsecond = 0, fold_flag = False, tzinfo = None \<rparr>"

text \<open>
  02:30 on 25 October 2020 in the zone Europe/Paris, where the clocks went back from
  03:00 to 02:00 on that day: the wall time comes twice, first at two hours from UTC
  (\<^verbatim>\<open>fold=0\<close>), then at one hour (\<^verbatim>\<open>fold=1\<close>). \<open>paris_0230\<close> is the first of them, and
  \<open>fixed_0230\<close> the same wall time with a \<^verbatim>\<open>datetime.timezone\<close> of two hours.
\<close>

definition paris_0230 :: pydatetime where
  "paris_0230 = \<lparr> year = 2020, month = 10, day = 25, hour = 2, minute = 30, second = 0,
                  microsecond = 0, fold_flag = False,
                  tzinfo = Some (Zone 0 7200000000 3600000000) \<rparr>"

definition fixed_0230 :: pydatetime where
  "fixed_0230 = \<lparr> year = 2020, month = 10, day = 25, hour = 2, minute = 30, second = 0,
                  microsecond = 0, fold_flag = False, tzinfo = Some (Timezone 7200000000) \<rparr>"

definition sample_fromisoformat :: "string \<Rightarrow> pydatetime option" where
  "sample_fromisoformat s =
     (if s = ''1970-01-01T00:00:00'' then Some epoch
      else if s = ''2020-10-25T02:30:00+02:00'' then Some fixed_0230
      else None)"

definition sample :: builtins where
  "sample = \<lparr> float_str = sample_float_str, float_of_str = sample_float_of_str,
              fromisoformat = sample_fromisoformat \<rparr>"

section \<open>Predicates used in the statements\<close>


text \<open>
  The values Python can build: the elements of a set and the keys of a dictionary are
  hashable, and no two of them are equal.
\<close>

fun distinct_eq :: "pyval list \<Rightarrow> bool" where
  "distinct_eq [] = True"
| "distinct_eq (x # xs) = (\<not> list_ex (\<lambda>y. py_eq x y) xs \<and> distinct_eq xs)"

fun well_formed :: "pyval \<Rightarrow> bool" where
  "well_formed (VList xs) = list_all well_formed xs"
| "well_formed (VTuple xs) = list_all well_formed xs"
| "well_formed (VSet xs) = (list_all well_formed xs \<and> list_all hashable xs \<and> distinct_eq xs)"
| "well_formed (VDict kvs) =
     (list_all (\<lambda>(k, v). well_formed k \<and> hashable k \<and> well_formed v) kvs
      \<and> distinct_eq (map fst kvs))"
| "well_formed _ = True"

text \<open>
  The interpreter's conversions give back the floats and datetimes inside a value:
  \<^verbatim>\<open>float(str(x))\<close> is \<open>x\<close> (for NaN: is NaN), and
  \<^verbatim>\<open>datetime.fromisoformat(d.isoformat())\<close> is \<open>d\<close>, with its fields, fold and tzinfo.
\<close>

fun conversions_invert :: "builtins \<Rightarrow> pyval \<Rightarrow> bool" where
  "conversions_invert B (VFloat f) = (float_of_str B (float_str B f) = Some f)"
| "conversions_invert B (VDatetime d) = (fromisoformat B (isoformat d) = Some d)"
| "conversions_invert B (VList xs) = list_all (conversions_invert B) xs"
| "conversions_invert B (VTuple xs) = list_all (conversions_invert B) xs"
| "conversions_invert B (VSet xs) = list_all (conversions_invert B) xs"
| "conversions_invert B (VDict kvs) =
     list_all (\<lambda>(k, v). conversions_invert B k \<and> conversions_invert B v) kvs"
| "conversions_invert B _ = True"


text \<open>
  The interpreter's conversions accept what they wrote for the floats and datetimes
  inside a value: \<^verbatim>\<open>float(str(x))\<close> and \<^verbatim>\<open>datetime.fromisoformat(d.isoformat())\<close> return
  a value, whichever it is.
\<close>

fun conversions_succeed :: "builtins \<Rightarrow> pyval \<Rightarrow> bool" where
  "conversions_succeed B (VFloat f) = (float_of_str B (float_str B f) \<noteq> None)"
| "conversions_succeed B (VDatetime d) = (fromisoformat B (isoformat d) \<noteq> None)"
| "conversions_succeed B (VList xs) = list_all (conversions_succeed B) xs"
| "conversions_succeed B (VTuple xs) = list_all (conversions_succeed B) xs"
| "conversions_succeed B (VSet xs) = list_all (conversions_succeed B) xs"
| "conversions_succeed B (VDict kvs) =
     list_all (\<lambda>(k, v). conversions_succeed B k \<and> conversions_succeed B v) kvs"
| "conversions_succeed B _ = True"

text \<open>
  What comes back for a value whose fragment is decoded: the floats and datetimes as
  the interpreter's conversions return them, the containers rebuilt by their factories.
\<close>

fun reread :: "builtins \<Rightarrow> pyval \<Rightarrow> pyval" where
  "reread B (VFloat f) =
     (case float_of_str B (float_str B f) of None \<Rightarrow> VFloat f | Some g \<Rightarrow> VFloat g)"
| "reread B (VDatetime d) =
     (case fromisoformat B (isoformat d) of None \<Rightarrow> VDatetime d | Some e \<Rightarrow> VDatetime e)"
| "reread B (VList xs) = VList (map (reread B) xs)"
| "reread B (VTuple xs) = VTuple (map (reread B) xs)"
| "reread B (VSet xs) =
     (case set_factory (map (reread B) xs) of Inl e \<Rightarrow> VSet xs | Inr s \<Rightarrow> s)"
| "reread B (VDict kvs) =
     (case dict_factory (map (\<lambda>(k, v). VTuple [reread B k, reread B v]) kvs) of
        Inl e \<Rightarrow> VDict kvs | Inr d \<Rightarrow> d)"
| "reread B v = v"

definition is_digit :: "char \<Rightarrow> bool" where
  "is_digit c = (c \<in> set ''0123456789'')"

section \<open>Lemmas\<close>

subsection \<open>Integers and their text\<close>

lemma digit_val_digit_char: "d < 10 \<Longrightarrow> digit_val (digit_char d) = Some d"
proof -
  assume "d < 10"
  then have "d \<in> {0, 1, 2, 3, 4, 5, 6, 7, 8, 9}" by auto
  then show ?thesis by (auto simp: digit_val_def digit_char_def)
qed

lemma is_digit_digit_char: "d < 10 \<Longrightarrow> is_digit (digit_char d)"
proof -
  assume "d < 10"
  then have "d \<in> {0, 1, 2, 3, 4, 5, 6, 7, 8, 9}" by auto
  then show ?thesis by (auto simp: is_digit_def digit_char_def)
qed

lemma is_digit_val: "is_digit c \<Longrightarrow> \<exists>d. digit_val c = Some d"
  by (auto simp: is_digit_def digit_val_def)

lemma is_digit_plain:
  "is_digit c \<Longrightarrow> c \<noteq> CHR ''_'' \<and> c \<noteq> CHR ''-'' \<and> c \<noteq> CHR ''+'' \<and> c \<noteq> CHR '':'' \<and> \<not> is_space c"
  by (auto simp: is_digit_def is_space_def)

lemma str_nat_digits: "list_all is_digit (str_nat n)"
  by (induction n rule: str_nat.induct) (subst str_nat.simps, simp add: is_digit_digit_char)

lemma str_nat_nonempty: "str_nat n \<noteq> []"
  by (subst str_nat.simps) simp

lemma digits_value_snoc:
  "list_all is_digit ds \<Longrightarrow> digit_val c = Some d \<Longrightarrow>
   digits_value acc (ds @ [c]) = map_option (\<lambda>v. 10 * v + d) (digits_value acc ds)"
proof (induction ds arbitrary: acc)
  case Nil
  then show ?case by (auto simp: digit_val_def split: if_splits)
next
  case (Cons a ds)
  then show ?case by (auto dest: is_digit_val is_digit_plain)
qed

lemma digits_value_str_nat: "digits_value 0 (str_nat n) = Some n"
proof (induction n rule: str_nat.induct)
  case (1 n)
  show ?case
  proof (cases "n < 10")
    case True
    then show ?thesis
      using digit_val_digit_char [of n] is_digit_plain [OF is_digit_digit_char [of n]]
      by (subst str_nat.simps) simp
  next
    case False
    then show ?thesis
      using 1 digits_value_snoc [OF str_nat_digits, of "digit_char (n mod 10)" "n mod 10" 0 "n div 10"]
      by (subst str_nat.simps) (simp add: digit_val_digit_char)
  qed
qed

lemma dropWhile_hd_id: "xs \<noteq> [] \<Longrightarrow> \<not> P (hd xs) \<Longrightarrow> dropWhile P xs = xs"
  by (cases xs) auto

lemma strip_id: "s \<noteq> [] \<Longrightarrow> \<not> is_space (hd s) \<Longrightarrow> \<not> is_space (last s) \<Longrightarrow> strip s = s"
  by (simp add: strip_def dropWhile_hd_id hd_rev)

lemma str_nat_ends: "is_digit (hd (str_nat n))" "is_digit (last (str_nat n))"
  using str_nat_digits [of n] str_nat_nonempty [of n]
  by (auto simp: list_all_iff)

lemma int_of_str_str_nat: "int_of_str (str_nat n) = Some (int n)"
proof -
  obtain c cs where s: "str_nat n = c # cs"
    using str_nat_nonempty [of n] by (cases "str_nat n") auto
  have c: "is_digit c" using str_nat_ends(1) [of n] s by simp
  have "strip (str_nat n) = str_nat n"
    using str_nat_ends [of n] str_nat_nonempty [of n] is_digit_plain by (intro strip_id) auto
  then show ?thesis
    using s is_digit_plain [OF c] digits_value_str_nat [of n]
    by (simp add: int_of_str_def unsigned_value_def)
qed

lemma int_of_str_str_int: "int_of_str (str_int i) = Some i"
proof (cases "i < 0")
  case False
  then show ?thesis by (simp add: str_int_def int_of_str_str_nat)
next
  case True
  obtain c cs where s: "str_nat (nat (- i)) = c # cs"
    using str_nat_nonempty [of "nat (- i)"] by (cases "str_nat (nat (- i))") auto
  have c: "is_digit c" using str_nat_ends(1) [of "nat (- i)"] s by simp
  have "strip (CHR ''-'' # str_nat (nat (- i))) = CHR ''-'' # str_nat (nat (- i))"
    using str_nat_ends(2) [of "nat (- i)"] str_nat_nonempty [of "nat (- i)"] is_digit_plain
    by (intro strip_id) (auto simp: is_space_def)
  then show ?thesis
    using True s is_digit_plain [OF c] digits_value_str_nat [of "nat (- i)"]
    by (simp add: str_int_def int_of_str_def unsigned_value_def)
qed

subsection \<open>Framing\<close>

lemma tag_single: "\<exists>c. tag h = [c]"
  by (cases h) auto

lemma split_first_str_nat: "split_first (str_nat n @ delimiter @ s) = str_nat n"
proof -
  have "\<forall>c \<in> set (str_nat n). [c] \<noteq> delimiter"
    using str_nat_digits [of n] is_digit_plain by (auto simp: list_all_iff delimiter_def)
  then show ?thesis
    by (simp add: split_first_def takeWhile_append2 delimiter_def)
qed

lemma slice_append:
  "slice (pre @ s) (int (length pre)) (int (length pre) + int n) = take n s"
proof -
  have "slice_bound (length (pre @ s)) (int (length pre)) = length pre"
    by (simp add: slice_bound_def)
  moreover have "slice_bound (length (pre @ s)) (int (length pre) + int n)
      = length pre + min n (length s)"
    by (simp add: slice_bound_def nat_add_distrib min_def)
  moreover have "take (min n (length s)) s = take n s"
    by (simp add: min_def)
  ultimately show ?thesis
    by (simp add: slice_def Let_def)
qed

lemma unpack_pack_nat:
  "unpack (pack h (int n) val @ rest) =
     Inr (take n (val @ rest), int n, length (str_nat n) + 2)"
proof -
  obtain c where c: "tag h = [c]" using tag_single by blast
  have "slice ((c # str_nat n @ delimiter) @ val @ rest) (int (length (c # str_nat n @ delimiter)))
          (int (length (c # str_nat n @ delimiter)) + int n) = take n (val @ rest)"
    by (rule slice_append)
  then have "slice (c # str_nat n @ delimiter @ val @ rest) (int (length (str_nat n) + 2))
          (int (length (str_nat n) + 2) + int n) = take n (val @ rest)"
    by (simp add: delimiter_def)
  then show ?thesis
    using split_first_str_nat [of n "val @ rest"]
    by (simp add: unpack_def pack_def get_tag_def c str_int_def int_of_str_str_nat Let_def
        delimiter_def)
qed

lemma unpack_pack:
  "unpack (pack h (int (length val)) val @ rest) =
     Inr (val, int (length val), length (str_nat (length val)) + 2)"
  by (simp add: unpack_pack_nat)

lemma length_pack: "length (pack h (int n) val) = length (str_nat n) + 2 + length val"
  using tag_single [of h] by (auto simp: pack_def str_int_def delimiter_def)

lemma get_by_raw_data_pack: "get_by_raw_data (pack h len val @ rest) = Inr h"
  by (cases h) (simp_all add: get_by_raw_data_def get_tag_def pack_def tag_2_handler_def)

subsection \<open>Fragments of the encoder\<close>

lemma encode_is_pack:
  "\<exists>val. encode B v = (pack (get_by_data v) (int (length val)) val, int (length val))"
  by (cases v)
    (auto simp: NoneHandler_encode_def BooleanHandler_encode_def StringHandler_encode_def
      DatetimeHandler_encode_def GenericNumberHandler_encode_def
      GenericCollectionHandler_encode_def DictionaryHandler_encode_def Let_def
      simp del: length_concat intro: exI)

lemma pack_nonempty: "pack h len val \<noteq> []"
  using tag_single [of h] by (auto simp: pack_def)

lemma encode_nonempty: "fst (encode B v) \<noteq> []"
  using encode_is_pack [of B v] by (auto simp: pack_nonempty)

lemma get_by_raw_data_encode: "get_by_raw_data (fst (encode B v) @ rest) = Inr (get_by_data v)"
  using encode_is_pack [of B v] by (auto simp: get_by_raw_data_pack)

subsection \<open>The loops on a payload written by the encoder\<close>

lemma decode_items_fragments:
  assumes "\<And>x rest. x \<in> set xs \<Longrightarrow>
     decode B (get_by_data x) (fst (encode B x) @ rest) = Inr (g x, length (fst (encode B x)))"
  shows "decode_items B (pre @ concat (map (\<lambda>i. fst (encode B i)) xs)) (length pre) acc
     = Inr (acc @ map g xs)"
  using assms
proof (induction xs arbitrary: pre acc)
  case Nil
  then show ?case by (subst decode_items.simps) simp
next
  case (Cons x xs)
  let ?f = "fst (encode B x)" and ?r = "concat (map (\<lambda>i. fst (encode B i)) xs)"
  have more: "length pre < length (pre @ ?f @ ?r)"
    using encode_nonempty [of B x] by simp
  have item: "decode B (get_by_data x) (?f @ ?r) = Inr (g x, length ?f)"
    using Cons.prems by simp
  have "decode_items B ((pre @ ?f) @ ?r) (length (pre @ ?f)) (acc @ [g x])
      = Inr ((acc @ [g x]) @ map g xs)"
    using Cons.prems by (intro Cons.IH) simp
  then have next_step:
    "decode_items B (pre @ ?f @ ?r) (length pre + length ?f) (acc @ [g x])
      = Inr (acc @ g x # map g xs)"
    by simp
  show ?case
    using more item next_step get_by_raw_data_encode [of B x ?r]
    by (subst decode_items.simps) (simp add: Let_def)
qed

lemma decode_pairs_fragments:
  assumes "\<And>k v rest. (k, v) \<in> set kvs \<Longrightarrow>
     decode B TupleHandler (fst (encode B (VTuple [k, v])) @ rest)
       = Inr (VTuple [g k, g v], length (fst (encode B (VTuple [k, v]))))"
  shows "decode_pairs B (pre @ concat (map (\<lambda>(k, v). fst (encode B (VTuple [k, v]))) kvs))
           (length pre) acc
     = Inr (acc @ map (\<lambda>(k, v). VTuple [g k, g v]) kvs)"
  using assms
proof (induction kvs arbitrary: pre acc)
  case Nil
  then show ?case by (subst decode_pairs.simps) simp
next
  case (Cons kv kvs)
  obtain k v where kv: "kv = (k, v)" by (cases kv)
  let ?f = "fst (encode B (VTuple [k, v]))"
    and ?r = "concat (map (\<lambda>(k, v). fst (encode B (VTuple [k, v]))) kvs)"
  have more: "length pre < length (pre @ ?f @ ?r)"
    using encode_nonempty [of B "VTuple [k, v]"] by simp
  have item: "decode B TupleHandler (?f @ ?r) = Inr (VTuple [g k, g v], length ?f)"
    using Cons.prems kv by simp
  have "decode_pairs B ((pre @ ?f) @ ?r) (length (pre @ ?f)) (acc @ [VTuple [g k, g v]])
      = Inr ((acc @ [VTuple [g k, g v]]) @ map (\<lambda>(k, v). VTuple [g k, g v]) kvs)"
    using Cons.prems by (intro Cons.IH) simp
  then have next_step:
    "decode_pairs B (pre @ ?f @ ?r) (length pre + length ?f) (acc @ [VTuple [g k, g v]])
      = Inr (acc @ VTuple [g k, g v] # map (\<lambda>(k, v). VTuple [g k, g v]) kvs)"
    by simp
  show ?case
    using more item next_step
    by (subst decode_pairs.simps) (simp add: Let_def kv)
qed

subsection \<open>The factories\<close>

lemma set_of_items_hashable:
  "list_all hashable items \<Longrightarrow> \<exists>s. set_of_items acc items = Inr s"
proof (induction items arbitrary: acc)
  case Nil
  then show ?case by simp
next
  case (Cons x items)
  then have "set_add acc x = Inr acc \<or> set_add acc x = Inr (acc @ [x])"
    by (simp add: set_add_def)
  with Cons show ?case by auto
qed

lemma set_factory_hashable:
  "list_all hashable items \<Longrightarrow> \<exists>s. set_factory items = Inr (VSet s)"
  using set_of_items_hashable [of items "[]"] by (auto simp: set_factory_def)

lemma dict_of_pairs_hashable:
  "list_all (\<lambda>(k, v). hashable k) kvs \<Longrightarrow>
   \<exists>d. dict_of_pairs acc (map (\<lambda>(k, v). VTuple [k, v]) kvs) = Inr d"
proof (induction kvs arbitrary: acc)
  case Nil
  then show ?case by simp
next
  case (Cons kv kvs)
  obtain k v where kv: "kv = (k, v)" by (cases kv)
  with Cons show ?case by simp
qed

lemma dict_factory_hashable:
  "list_all (\<lambda>(k, v). hashable k) kvs \<Longrightarrow>
   \<exists>d. dict_factory (map (\<lambda>(k, v). VTuple [k, v]) kvs) = Inr (VDict d)"
  using dict_of_pairs_hashable [of kvs "[]"] by (auto simp: dict_factory_def)

lemma set_of_items_distinct:
  "list_all hashable xs \<Longrightarrow> distinct_eq xs
   \<Longrightarrow> list_all (\<lambda>y. \<not> list_ex (\<lambda>x. py_eq y x) xs) acc
   \<Longrightarrow> set_of_items acc xs = Inr (acc @ xs)"
proof (induction xs arbitrary: acc)
  case Nil
  then show ?case by simp
next
  case (Cons x xs)
  have "set_add acc x = Inr (acc @ [x])"
    using Cons.prems by (auto simp: set_add_def list_all_iff list_ex_iff)
  moreover have "set_of_items (acc @ [x]) xs = Inr ((acc @ [x]) @ xs)"
    using Cons.prems by (intro Cons.IH) (auto simp: list_all_iff list_ex_iff)
  ultimately show ?case by simp
qed

lemma dict_update_fresh:
  "list_all (\<lambda>(k', v'). \<not> py_eq k' k) acc \<Longrightarrow> dict_update acc k v = acc @ [(k, v)]"
  by (induction acc) auto

lemma dict_of_pairs_distinct:
  "list_all (\<lambda>(k, v). hashable k) kvs \<Longrightarrow> distinct_eq (map fst kvs)
   \<Longrightarrow> list_all (\<lambda>(k', v'). \<not> list_ex (\<lambda>k. py_eq k' k) (map fst kvs)) acc
   \<Longrightarrow> dict_of_pairs acc (map (\<lambda>(k, v). VTuple [k, v]) kvs) = Inr (acc @ kvs)"
proof (induction kvs arbitrary: acc)
  case Nil
  then show ?case by simp
next
  case (Cons kv kvs)
  obtain k v where kv: "kv = (k, v)" by (cases kv)
  have "dict_update acc k v = acc @ [(k, v)]"
    using Cons.prems kv by (intro dict_update_fresh) (auto simp: list_all_iff)
  moreover have "dict_of_pairs (acc @ [(k, v)]) (map (\<lambda>(k, v). VTuple [k, v]) kvs)
      = Inr ((acc @ [(k, v)]) @ kvs)"
    using Cons.prems kv by (intro Cons.IH) (auto simp: list_all_iff list_ex_iff)
  ultimately show ?case using Cons.prems kv by simp
qed

subsection \<open>Decoding what the encoder wrote\<close>

lemma hashable_reread: "hashable (reread B v) = hashable v"
proof (induction v)
  case (VTuple xs)
  then show ?case by (simp add: list_all_iff)
next
  case (VSet xs)
  show ?case by (auto simp: set_factory_def split: sum.splits)
next
  case (VDict kvs)
  show ?case by (auto simp: dict_factory_def split: sum.splits)
qed (auto split: option.splits)

lemma decode_collection:
  assumes "\<And>x rest. x \<in> set xs \<Longrightarrow>
     decode B (get_by_data x) (fst (encode B x) @ rest)
       = Inr (reread B x, length (fst (encode B x)))"
  shows "decode B ListHandler (fst (encode B (VList xs)) @ rest)
           = Inr (reread B (VList xs), length (fst (encode B (VList xs))))"
    and "decode B TupleHandler (fst (encode B (VTuple xs)) @ rest)
           = Inr (reread B (VTuple xs), length (fst (encode B (VTuple xs))))"
    and "list_all hashable xs \<Longrightarrow>
         decode B SetHandler (fst (encode B (VSet xs)) @ rest)
           = Inr (reread B (VSet xs), length (fst (encode B (VSet xs))))"
proof -
  have items: "decode_items B (concat (map (\<lambda>i. fst (encode B i)) xs)) 0 []
      = Inr (map (reread B) xs)"
    using decode_items_fragments [of xs B "reread B" "[]" "[]"] assms by simp
  show "decode B ListHandler (fst (encode B (VList xs)) @ rest)
           = Inr (reread B (VList xs), length (fst (encode B (VList xs))))"
    and "decode B TupleHandler (fst (encode B (VTuple xs)) @ rest)
           = Inr (reread B (VTuple xs), length (fst (encode B (VTuple xs))))"
    using items
    by (simp_all add: GenericCollectionHandler_encode_def Let_def unpack_pack length_pack
        del: length_concat)
  show "decode B SetHandler (fst (encode B (VSet xs)) @ rest)
           = Inr (reread B (VSet xs), length (fst (encode B (VSet xs))))"
    if "list_all hashable xs"
  proof -
    have "list_all hashable (map (reread B) xs)"
      using that by (simp add: list_all_iff hashable_reread)
    then obtain s where "set_factory (map (reread B) xs) = Inr (VSet s)"
      using set_factory_hashable by blast
    then show ?thesis
      using items
      by (simp add: GenericCollectionHandler_encode_def Let_def unpack_pack length_pack
          del: length_concat)
  qed
qed

lemma decode_dictionary:
  assumes "\<And>k v rest. (k, v) \<in> set kvs \<Longrightarrow>
     decode B TupleHandler (fst (encode B (VTuple [k, v])) @ rest)
       = Inr (VTuple [reread B k, reread B v], length (fst (encode B (VTuple [k, v]))))"
    and "list_all (\<lambda>(k, v). hashable k) kvs"
  shows "decode B DictionaryHandler (fst (encode B (VDict kvs)) @ rest)
           = Inr (reread B (VDict kvs), length (fst (encode B (VDict kvs))))"
proof -
  let ?val = "concat (map (\<lambda>(k, v). fst (encode B (VTuple [k, v]))) kvs)"
  let ?pairs = "map (\<lambda>(k, v). VTuple [reread B k, reread B v]) kvs"
  have enc: "fst (encode B (VDict kvs)) = pack DictionaryHandler (int (length ?val)) ?val"
    by (simp add: DictionaryHandler_encode_def Let_def del: length_concat)
  have pairs: "decode_pairs B ?val 0 [] = Inr ?pairs"
    using decode_pairs_fragments [of kvs B "reread B" "[]" "[]"] assms(1) by simp
  have "?pairs = map (\<lambda>(k, v). VTuple [k, v]) (map (\<lambda>(k, v). (reread B k, reread B v)) kvs)"
    by (simp add: case_prod_unfold)
  moreover have "list_all (\<lambda>(k, v). hashable k) (map (\<lambda>(k, v). (reread B k, reread B v)) kvs)"
    using assms(2) by (auto simp: list_all_iff hashable_reread)
  ultimately obtain d where "dict_factory ?pairs = Inr (VDict d)"
    using dict_factory_hashable [of "map (\<lambda>(k, v). (reread B k, reread B v)) kvs"] by auto
  then show ?thesis
    unfolding enc using pairs
    by (simp add: unpack_pack length_pack del: length_concat)
qed

lemma decode_reread:
  "well_formed v \<Longrightarrow> conversions_succeed B v \<Longrightarrow>
   decode B (get_by_data v) (fst (encode B v) @ rest)
     = Inr (reread B v, length (fst (encode B v)))"
proof (induction v arbitrary: rest)
  case VNone
  show ?case
    using unpack_pack [of NoneHandler "[]" rest] length_pack [of NoneHandler 0 "[]"]
    by (simp add: NoneHandler_encode_def)
next
  case (VBool b)
  show ?case
    by (simp add: BooleanHandler_encode_def Let_def unpack_pack length_pack int_of_str_str_int)
next
  case (VStr s)
  show ?case by (simp add: StringHandler_encode_def Let_def unpack_pack length_pack)
next
  case (VInt i)
  show ?case
    by (simp add: GenericNumberHandler_encode_def Let_def unpack_pack length_pack int_of_str_str_int)
next
  case (VFloat f)
  then show ?case
    by (auto simp: GenericNumberHandler_encode_def Let_def unpack_pack length_pack)
next
  case (VDatetime d)
  then show ?case
    by (auto simp: DatetimeHandler_encode_def Let_def unpack_pack length_pack)
next
  case (VList xs)
  have "decode B (get_by_data x) (fst (encode B x) @ r)
      = Inr (reread B x, length (fst (encode B x)))"
    if "x \<in> set xs" for x r
    using that VList by (simp add: list_all_iff)
  then show ?case using decode_collection(1) [of xs B rest] by simp
next
  case (VTuple xs)
  have "decode B (get_by_data x) (fst (encode B x) @ r)
      = Inr (reread B x, length (fst (encode B x)))"
    if "x \<in> set xs" for x r
    using that VTuple by (simp add: list_all_iff)
  then show ?case using decode_collection(2) [of xs B rest] by simp
next
  case (VSet xs)
  have "decode B (get_by_data x) (fst (encode B x) @ r)
      = Inr (reread B x, length (fst (encode B x)))"
    if "x \<in> set xs" for x r
    using that VSet by (simp add: list_all_iff)
  then show ?case using decode_collection(3) [of xs B rest] VSet.prems by simp
next
  case (VDict kvs)
  have pair: "decode B TupleHandler (fst (encode B (VTuple [k, v])) @ r)
      = Inr (VTuple [reread B k, reread B v], length (fst (encode B (VTuple [k, v]))))"
    if "(k, v) \<in> set kvs" for k v r
  proof -
    have "decode B (get_by_data x) (fst (encode B x) @ r')
        = Inr (reread B x, length (fst (encode B x)))"
      if "x \<in> set [k, v]" for x r'
      using that \<open>(k, v) \<in> set kvs\<close> VDict.IH(1) [of "(k, v)" k r'] VDict.IH(2) [of "(k, v)" v r']
        VDict.prems
      by (auto simp: list_all_iff)
    then show ?thesis using decode_collection(2) [of "[k, v]" B r] by simp
  qed
  have "list_all (\<lambda>(k, v). hashable k) kvs"
    using VDict.prems by (auto simp: list_all_iff)
  with pair show ?case by (simp only: get_by_data.simps decode_dictionary)
qed

lemma conversions_invert_succeed: "conversions_invert B v \<Longrightarrow> conversions_succeed B v"
  by (induction v) (auto simp: list_all_iff)

lemma map_idem: "(\<And>x. x \<in> set xs \<Longrightarrow> f x = x) \<Longrightarrow> map f xs = xs"
  by (induction xs) auto

lemma reread_id: "well_formed v \<Longrightarrow> conversions_invert B v \<Longrightarrow> reread B v = v"
proof (induction v)
  case (VList xs)
  then show ?case by (auto simp: list_all_iff intro: map_idem)
next
  case (VTuple xs)
  then show ?case by (auto simp: list_all_iff intro: map_idem)
next
  case (VSet xs)
  then have "map (reread B) xs = xs" by (auto simp: list_all_iff intro: map_idem)
  then show ?case
    using VSet.prems set_of_items_distinct [of xs "[]"] by (simp add: set_factory_def)
next
  case (VDict kvs)
  have "reread B k = k \<and> reread B v = v" if "(k, v) \<in> set kvs" for k v
    using that VDict.IH(1) [of "(k, v)" k] VDict.IH(2) [of "(k, v)" v] VDict.prems
    by (auto simp: list_all_iff)
  then have same: "map (\<lambda>(k, v). VTuple [reread B k, reread B v]) kvs
      = map (\<lambda>(k, v). VTuple [k, v]) kvs"
    by auto
  have "list_all (\<lambda>(k, v). hashable k) kvs" "distinct_eq (map fst kvs)"
    using VDict.prems by (auto simp: list_all_iff)
  then have "dict_of_pairs [] (map (\<lambda>(k, v). VTuple [k, v]) kvs) = Inr kvs"
    using dict_of_pairs_distinct [of kvs "[]"] by simp
  then show ?case
    unfolding reread.simps same by (simp add: dict_factory_def)
qed auto

lemma decode_encode:
  "well_formed v \<Longrightarrow> conversions_invert B v \<Longrightarrow>
   decode B (get_by_data v) (fst (encode B v) @ rest) = Inr (v, length (fst (encode B v)))"
  using decode_reread [of v B rest] by (simp add: conversions_invert_succeed reread_id)

lemma decode_unpack_error: "unpack raw = Inl e \<Longrightarrow> decode B h raw = Inl e"
  by (cases h) simp_all

lemma loads_dumps_append:
  "well_formed v \<Longrightarrow> conversions_invert B v \<Longrightarrow> loads B (dumps B v @ rest) = Inr v"
  by (simp add: loads_def dumps_def get_by_raw_data_encode decode_encode)

subsection \<open>Scalars through \<open>dumps\<close> and \<open>loads\<close>\<close>




subsection \<open>Text after a complete fragment\<close>

lemma decode_cong_unpack: "unpack raw = unpack raw' \<Longrightarrow> decode B h raw = decode B h raw'"
  by (cases h) simp_all

lemma slice_prefix:
  assumes "0 \<le> len" and "off + nat len \<le> length f"
  shows "slice (f @ s) (int off) (int off + len) = slice f (int off) (int off + len)"
proof -
  have "slice_bound (length (f @ s)) (int off) = off" "slice_bound (length f) (int off) = off"
    using assms by (simp_all add: slice_bound_def)
  moreover have "slice_bound (length (f @ s)) (int off + len) = off + nat len"
    "slice_bound (length f) (int off + len) = off + nat len"
    using assms by (simp_all add: slice_bound_def nat_add_distrib)
  ultimately show ?thesis
    using assms by (simp add: slice_def Let_def)
qed

lemma split_first_prefix:
  assumes "length (split_first r) < length r"
  shows "split_first (r @ s) = split_first r"
proof -
  have "\<exists>c \<in> set r. \<not> [c] \<noteq> delimiter"
  proof (rule ccontr)
    assume "\<not> ?thesis"
    then have "takeWhile (\<lambda>c. [c] \<noteq> delimiter) r = r" by (simp add: takeWhile_eq_all_conv)
    with assms show False by (simp add: split_first_def)
  qed
  then obtain c where "c \<in> set r" and "\<not> [c] \<noteq> delimiter" by blast
  then show ?thesis
    unfolding split_first_def by (rule takeWhile_append1)
qed

lemma unpack_complete_append:
  assumes "unpack f = Inr (val, len, off)" and "0 \<le> len" and "off + nat len \<le> length f"
  shows "unpack (f @ s) = unpack f"
proof -
  obtain c r where f: "f = c # r"
    using assms(1) by (cases f) (auto simp: unpack_def get_tag_def)
  have off: "off = length (split_first r) + 2"
    using assms(1) f
    by (auto simp: unpack_def get_tag_def Let_def delimiter_def split: option.splits)
  then have "length (split_first r) < length r" using assms(3) f by simp
  then have sp: "split_first (r @ s) = split_first r" by (rule split_first_prefix)
  have len: "int_of_str (split_first r) = Some len"
    using assms(1) f
    by (auto simp: unpack_def get_tag_def Let_def split: option.splits)
  have "slice (f @ s) (int off) (int off + len) = slice f (int off) (int off + len)"
    using assms(2,3) by (rule slice_prefix)
  then show ?thesis
    using f sp len off by (simp add: unpack_def get_tag_def Let_def delimiter_def)
qed

lemma loads_complete_append:
  assumes "unpack f = Inr (val, len, off)" and "0 \<le> len" and "off + nat len \<le> length f"
  shows "loads B (f @ s) = loads B f"
proof -
  have "f \<noteq> []" using assms(1) by (auto simp: unpack_def get_tag_def)
  then have "get_by_raw_data (f @ s) = get_by_raw_data f"
    by (cases f) (simp_all add: get_by_raw_data_def get_tag_def)
  moreover have "decode B h (f @ s) = decode B h f" for h
    using unpack_complete_append [OF assms] by (rule decode_cong_unpack)
  ultimately show ?thesis by (simp add: loads_def split: sum.splits)
qed

subsection \<open>Python's equality\<close>



subsection \<open>Unfolding for closed examples\<close>

lemmas eval_simps =
  dumps_def loads_def pack_def unpack_def get_tag_def get_by_raw_data_def tag_2_handler_def
  split_first_def delimiter_def str_int_def str_nat.simps digit_char_def int_of_str_def
  strip_def is_space_def unsigned_value_def digit_val_def slice_def slice_bound_def
  NoneHandler_encode_def BooleanHandler_encode_def StringHandler_encode_def
  GenericNumberHandler_encode_def GenericCollectionHandler_encode_def
  DictionaryHandler_encode_def DatetimeHandler_encode_def decode_items.simps decode_pairs.simps
  set_factory_def dict_factory_def set_add_def float_eq_def Let_def
  isoformat_def zfill_def format_offset_def utcoffset_def flip_fold_offset_def
  datetime_eq_def fields_def utc_microseconds_def toordinal_def days_before_year_def
  days_before_month_def is_leap_def
  sample_def sample_float_str_def sample_float_of_str_def sample_fromisoformat_def
  epoch_def paris_0230_def fixed_0230_def

subsection \<open>The sample at the values of the examples\<close>




section \<open>The claims\<close>







text \<open>
  C3, as amended. When the length a string fragment declares is at least the number of
  characters that follow the delimiter, \<open>loads\<close> raises no error: it returns the
  characters that are there, and the decoder reports the whole fragment consumed. So
  \<^verbatim>\<open>loads("S99:short")\<close> is \<^verbatim>\<open>"short"\<close>.
\<close>

theorem string_overrun:
  "length payload \<le> n \<Longrightarrow>
   loads B (pack StringHandler (int n) payload) = Inr (VStr payload) \<and>
   decode B StringHandler (pack StringHandler (int n) payload)
     = Inr (VStr payload, length (pack StringHandler (int n) payload))"
  using get_by_raw_data_pack [of StringHandler "int n" payload "[]"]
    unpack_pack_nat [of StringHandler n payload "[]"]
  by (simp add: loads_def length_pack)

theorem string_overrun_witness:
  "length ''short'' \<le> 99 \<and> loads sample ''S99:short'' = Inr (VStr ''short'') \<and>
   decode sample StringHandler ''S99:short'' = Inr (VStr ''short'', 9)"
proof -
  have p: "pack StringHandler 99 ''short'' = ''S99:short''" by (simp add: eval_simps)
  show ?thesis using string_overrun [of "''short''" 99 sample] by (simp add: p)
qed

text \<open>The claim as written fails on its own input: no error is raised.\<close>

theorem string_overrun_counterexample: "loads sample ''S99:short'' = Inr (VStr ''short'')"
  by code_simp

text \<open>
  C4, as amended. \<open>loads\<close> fails on the empty text (IndexError), on a text whose first
  character is not a registered tag (KeyError), and on a text whose length field is not
  accepted by \<^verbatim>\<open>int\<close> (ValueError); the length field is the text between the tag and
  the first delimiter, or all the text after the tag when there is no delimiter.
\<close>

theorem loads_fails:
  assumes "data = [] \<or> tag_2_handler (take 1 data) = None
           \<or> int_of_str (split_first (drop 1 data)) = None"
  shows "loads B data =
     Inl (if data = [] then IndexError
          else if tag_2_handler (take 1 data) = None then KeyError else ValueError)"
proof (cases data)
  case Nil
  then show ?thesis by (simp add: loads_def get_by_raw_data_def get_tag_def)
next
  case (Cons c cs)
  show ?thesis
  proof (cases "tag_2_handler [c]")
    case None
    then show ?thesis using Cons by (simp add: loads_def get_by_raw_data_def get_tag_def)
  next
    case (Some h)
    with assms Cons have "int_of_str (split_first cs) = None" by simp
    then have "unpack data = Inl ValueError"
      using Cons by (simp add: unpack_def get_tag_def Let_def)
    then have "decode B h data = Inl ValueError" by (rule decode_unpack_error)
    then show ?thesis using Cons Some by (simp add: loads_def get_by_raw_data_def get_tag_def)
  qed
qed

theorem loads_fails_witness:
  "loads sample [] = Inl IndexError
   \<and> tag_2_handler (take 1 ''Z5:hello'') = None \<and> loads sample ''Z5:hello'' = Inl KeyError
   \<and> int_of_str (split_first (drop 1 ''S1x:a'')) = None \<and> loads sample ''S1x:a'' = Inl ValueError
   \<and> int_of_str (split_first (drop 1 ''Sabc'')) = None \<and> loads sample ''Sabc'' = Inl ValueError"
proof -
  have h1: "tag_2_handler (take 1 ''Z5:hello'') = None" by (simp add: tag_2_handler_def)
  have h2: "int_of_str (split_first (drop 1 ''S1x:a'')) = None" by (simp add: eval_simps)
  have h3: "int_of_str (split_first (drop 1 ''Sabc'')) = None" by (simp add: eval_simps)
  have t: "tag_2_handler ''S'' = Some StringHandler" by (simp add: tag_2_handler_def)
  show ?thesis
    using h1 h2 h3 loads_fails [of "[]" sample] loads_fails [of "''Z5:hello''" sample]
      loads_fails [of "''S1x:a''" sample] loads_fails [of "''Sabc''" sample]
    by (simp add: t)
qed

text \<open>
  The claim as written fails twice: a negative length is accepted, and so is a text
  without delimiter whose remainder reads as an integer.
\<close>

theorem loads_fails_counterexample:
  "loads sample ''S-1:abc'' = Inr (VStr []) \<and> loads sample ''S5'' = Inr (VStr [])"
  by code_simp

text \<open>
  C5. The examples: \<^verbatim>\<open>dumps(None)\<close> is \<^verbatim>\<open>N0:\<close>, \<^verbatim>\<open>dumps(True)\<close> is \<^verbatim>\<open>B1:1\<close>,
  \<^verbatim>\<open>dumps([1, 2])\<close> is \<^verbatim>\<open>L8:I1:1I1:2\<close>, and \<^verbatim>\<open>loads\<close> of the last is the list
  \<^verbatim>\<open>[1, 2]\<close>.
\<close>

theorem examples:
  "dumps B VNone = ''N0:''
   \<and> dumps B (VBool True) = ''B1:1''
   \<and> dumps B (VList [VInt 1, VInt 2]) = ''L8:I1:1I1:2''
   \<and> loads B ''L8:I1:1I1:2'' = Inr (VList [VInt 1, VInt 2])"
  by (simp add: eval_simps)




text \<open>
  C7. A dictionary is written as the tag \<^verbatim>\<open>d\<close>, the length of its payload, the
  delimiter and the payload, and the payload, as \<^verbatim>\<open>_unpack\<close> reads it back, is the
  concatenation, in the order of the items, of one fragment per item: the tuple fragment
  of the two-element tuple \<^verbatim>\<open>(key, value)\<close>, whose own payload is the fragment of the key
  followed by the fragment of the value.
\<close>

theorem dictionary_encoding:
  "dumps B (VDict kvs) =
     pack DictionaryHandler
       (int (length (concat (map (\<lambda>(key, val). dumps B (VTuple [key, val])) kvs))))
       (concat (map (\<lambda>(key, val). dumps B (VTuple [key, val])) kvs))
   \<and> (\<exists>offset. unpack (dumps B (VDict kvs)) =
         Inr (concat (map (\<lambda>(key, val). dumps B (VTuple [key, val])) kvs),
              int (length (concat (map (\<lambda>(key, val). dumps B (VTuple [key, val])) kvs))),
              offset))
   \<and> dumps B (VTuple [k, v]) =
       pack TupleHandler (int (length (dumps B k @ dumps B v))) (dumps B k @ dumps B v)"
proof -
  let ?val = "concat (map (\<lambda>(key, val). dumps B (VTuple [key, val])) kvs)"
  have enc: "dumps B (VDict kvs) = pack DictionaryHandler (int (length ?val)) ?val"
    by (simp add: dumps_def DictionaryHandler_encode_def Let_def del: length_concat)
  have "unpack (dumps B (VDict kvs))
      = Inr (?val, int (length ?val), length (str_nat (length ?val)) + 2)"
    unfolding enc using unpack_pack [of DictionaryHandler ?val "[]"] by simp
  moreover have "dumps B (VTuple [k, v]) =
       pack TupleHandler (int (length (dumps B k @ dumps B v))) (dumps B k @ dumps B v)"
    by (simp add: dumps_def GenericCollectionHandler_encode_def Let_def)
  ultimately show ?thesis using enc by blast
qed

text \<open>
  C8. Text that follows a fragment is ignored by \<open>loads\<close>. For every fragment whose
  declared length is not negative and whose payload is all there, \<open>loads\<close> of the
  fragment followed by any text is \<open>loads\<close> of the fragment; and for every fragment
  written by the encoder both succeed, with the value that was written.
\<close>

theorem trailing_text_ignored:
  "(unpack f = Inr (val, len, off) \<and> 0 \<le> len \<and> off + nat len \<le> length f
      \<longrightarrow> loads B (f @ s) = loads B f)
   \<and> (well_formed v \<and> conversions_invert B v
      \<longrightarrow> loads B (dumps B v @ s) = loads B (dumps B v) \<and> loads B (dumps B v @ s) = Inr v)"
  using loads_complete_append [of f val len off B s]
    loads_dumps_append [of v B s] loads_dumps_append [of v B "[]"]
  by simp

theorem trailing_text_ignored_witness:
  "unpack ''B1:7'' = Inr (''7'', 1, 3)
   \<and> loads sample ''B1:7 and more'' = loads sample ''B1:7''
   \<and> well_formed (VList [VInt 1, VInt 2] :: pyval)
   \<and> conversions_invert sample (VList [VInt 1, VInt 2])
   \<and> loads sample ''L8:I1:1I1:2'' = Inr (VList [VInt 1, VInt 2])
   \<and> loads sample ''L8:I1:1I1:2 and more'' = Inr (VList [VInt 1, VInt 2])"
proof -
  let ?v = "VList [VInt 1, VInt 2] :: pyval"
  have u: "unpack ''B1:7'' = Inr (''7'', 1, 3)" by (simp add: eval_simps)
  have d: "dumps sample ?v = ''L8:I1:1I1:2''" by (simp add: eval_simps)
  have h: "well_formed ?v" "conversions_invert sample ?v" by simp_all
  show ?thesis
    using u h trailing_text_ignored [of "''B1:7''" "''7''" 1 3 sample "'' and more''" ?v]
    unfolding d by auto
qed

text \<open>
  C9. A boolean fragment whose payload is any text that \<^verbatim>\<open>int\<close> accepts decodes to
  True exactly when the integer is not zero; \<^verbatim>\<open>loads("B1:7")\<close> is True.
\<close>

theorem boolean_any_integer:
  "int_of_str payload = Some n \<Longrightarrow>
   loads B (pack BooleanHandler (int (length payload)) payload) = Inr (VBool (n \<noteq> 0))"
  using get_by_raw_data_pack [of BooleanHandler "int (length payload)" payload "[]"]
    unpack_pack [of BooleanHandler payload "[]"]
  by (simp add: loads_def)

theorem boolean_any_integer_witness:
  "int_of_str ''7'' = Some 7 \<and> loads sample ''B1:7'' = Inr (VBool True)"
proof -
  have h: "int_of_str ''7'' = Some 7" by (simp add: eval_simps)
  have p: "pack BooleanHandler 1 ''7'' = ''B1:7''" by (simp add: eval_simps)
  show ?thesis using h boolean_any_integer [OF h, of sample] by (simp add: p)
qed

text \<open>
  C10. A fragment with the tag \<^verbatim>\<open>N\<close>, any declared length \<open>n\<close> that is not negative and
  at least \<open>n\<close> characters of payload decodes to None, whatever the payload;
  \<^verbatim>\<open>loads("N3:abc")\<close> is None.
\<close>

theorem none_ignores_payload:
  "n \<le> length payload \<Longrightarrow> loads B (pack NoneHandler (int n) payload) = Inr VNone"
  using get_by_raw_data_pack [of NoneHandler "int n" payload "[]"]
    unpack_pack_nat [of NoneHandler n payload "[]"]
  by (simp add: loads_def)

theorem none_ignores_payload_witness:
  "3 \<le> length ''abc'' \<and> loads sample ''N3:abc'' = Inr VNone"
proof -
  have p: "pack NoneHandler 3 ''abc'' = ''N3:abc''" by (simp add: eval_simps)
  show ?thesis using none_ignores_payload [of 3 "''abc''" sample] by (simp add: p)
qed

end
